theory Spec2Isabelle
  imports Main "HOL-Library.List_Lexorder"
begin

section \<open>The release promoter of emsdk: \<open>scripts/create_release.py\<close>\<close>

text \<open>
  The script reads the version registry (\<open>emscripten-releases-tags.json\<close>), computes the
  next version from \<open>aliases["latest"]\<close>, creates a git branch, inserts the new release,
  re-sorts the releases, repoints the alias, writes the file and commits.

  Python strings are modelled as \<open>string\<close> (ASCII), Python's unbounded \<open>int\<close> as
  \<open>int\<close>, an insertion-ordered \<open>dict\<close> as an association list with distinct keys, and
  every exception as a value of \<open>py_error\<close>.
\<close>

subsection \<open>Exceptions\<close>

datatype py_error =
    ValueError
  | KeyError
  | IndexError
  | CalledProcessError
  | RegistryLoadError
  | SystemExit int

subsection \<open>The Python built-ins the script calls\<close>

text \<open>\<open>str(n)\<close> for an integer: decimal digits, most significant first, \<open>-\<close> for a negative one.\<close>

definition digit_char :: "nat \<Rightarrow> char" where
  "digit_char d = char_of (48 + d)"

function str_nat :: "nat \<Rightarrow> string" where
  "str_nat n = (if n < 10 then [digit_char n] else str_nat (n div 10) @ [digit_char (n mod 10)])"
  by pat_completeness auto
termination
  by (relation "measure (\<lambda>n. n)") auto

declare str_nat.simps [simp del]

definition py_str :: "int \<Rightarrow> string" where
  "py_str i = (if i < 0 then CHR ''-'' # str_nat (nat (- i)) else str_nat (nat i))"

text \<open>
  \<open>int(s)\<close> for a string: surrounding whitespace is stripped, one sign is allowed, then
  decimal digits, where single underscores may stand between two digits; anything else
  raises \<open>ValueError\<close>. The whitespace that \<open>int\<close> strips from an ASCII \<open>str\<close> is tab,
  newline, vertical tab, form feed, return (9 to 13) and space (32). The limit that recent
  interpreters put on the number of digits of a conversion (4300 unless configured
  otherwise) is not modelled.
\<close>

definition is_space :: "char \<Rightarrow> bool" where
  "is_space c = (let n = (of_char c :: nat) in (9 \<le> n \<and> n \<le> 13) \<or> n = 32)"

definition strip_with :: "(char \<Rightarrow> bool) \<Rightarrow> string \<Rightarrow> string" where
  "strip_with sp s = rev (dropWhile sp (rev (dropWhile sp s)))"

definition strip :: "string \<Rightarrow> string" where
  "strip s = strip_with is_space s"

text \<open>\<open>bytes.strip()\<close> removes space, tab, newline, return, vertical tab and form feed.\<close>

definition is_bytes_space :: "char \<Rightarrow> bool" where
  "is_bytes_space c = (let n = (of_char c :: nat) in (9 \<le> n \<and> n \<le> 13) \<or> n = 32)"

definition bytes_strip :: "string \<Rightarrow> string" where
  "bytes_strip s = strip_with is_bytes_space s"

definition is_digit :: "char \<Rightarrow> bool" where
  "is_digit c = (let n = (of_char c :: nat) in 48 \<le> n \<and> n \<le> 57)"

definition digit_val :: "char \<Rightarrow> nat" where
  "digit_val c = of_char c - 48"

fun valid_digits :: "string \<Rightarrow> bool" where
  "valid_digits [] = False"
| "valid_digits [c] = is_digit c"
| "valid_digits (c # d # cs) =
     (is_digit c \<and> (if d = CHR ''_'' then valid_digits cs else valid_digits (d # cs)))"

definition digits_value :: "string \<Rightarrow> nat" where
  "digits_value ds = foldl (\<lambda>acc c. 10 * acc + digit_val c) 0 (filter (\<lambda>c. c \<noteq> CHR ''_'') ds)"

definition py_int :: "string \<Rightarrow> py_error + int" where
  "py_int s =
     (let t = strip s;
          (sign, body) = (case t of
                            [] \<Rightarrow> (1, t)
                          | c # r \<Rightarrow> if c = CHR ''+'' then (1, r)
                                     else if c = CHR ''-'' then (- 1, r)
                                     else (1, t))
      in if valid_digits body then Inr (sign * int (digits_value body)) else Inl ValueError)"

text \<open>\<open>re.split('[.-]', s)\<close>: the pieces of \<open>s\<close> between the periods and hyphens; never empty.\<close>

definition is_delim :: "char \<Rightarrow> bool" where
  "is_delim c = (c = CHR ''.'' \<or> c = CHR ''-'')"

fun re_split :: "string \<Rightarrow> string list" where
  "re_split [] = [[]]"
| "re_split (c # cs) =
     (if is_delim c then [] # re_split cs
      else (case re_split cs of [] \<Rightarrow> [[c]] | p # ps \<Rightarrow> (c # p) # ps))"

text \<open>\<open>sep.join(parts)\<close>.\<close>

fun join :: "string \<Rightarrow> string list \<Rightarrow> string" where
  "join sep [] = []"
| "join sep [p] = p"
| "join sep (p # q # ps) = p @ sep @ join sep (q # ps)"

text \<open>A list comprehension \<open>[f(x) for x in xs]\<close> whose \<open>f\<close> may raise: the first error wins.\<close>

fun map_result :: "('a \<Rightarrow> py_error + 'b) \<Rightarrow> 'a list \<Rightarrow> py_error + 'b list" where
  "map_result f [] = Inr []"
| "map_result f (x # xs) =
     (case f x of
        Inl e \<Rightarrow> Inl e
      | Inr y \<Rightarrow> (case map_result f xs of Inl e \<Rightarrow> Inl e | Inr ys \<Rightarrow> Inr (y # ys)))"

subsection \<open>\<open>version_to_list\<close>\<close>

definition version_to_list :: "string \<Rightarrow> py_error + int list" where
  "version_to_list version_string = map_result py_int (take 3 (re_split version_string))"

text \<open>The statement \<open>new_version[-1] += 1\<close>: an empty list has no last element.\<close>

definition incr_last :: "int list \<Rightarrow> py_error + int list" where
  "incr_last v = (if v = [] then Inl IndexError else Inr (butlast v @ [last v + 1]))"

subsection \<open>Dictionaries\<close>

text \<open>
  A Python \<open>dict\<close> keeps its keys in insertion order: an association list whose keys are
  distinct. \<open>d[k]\<close> raises \<open>KeyError\<close> for a missing key; \<open>d[k] = v\<close> overwrites the value
  of a key in place and appends a new key at the end.
\<close>

definition py_dict :: "('k \<times> 'v) list \<Rightarrow> bool" where
  "py_dict d = distinct (map fst d)"

fun dict_get :: "('k \<times> 'v) list \<Rightarrow> 'k \<Rightarrow> py_error + 'v" where
  "dict_get [] k = Inl KeyError"
| "dict_get ((k', v) # d) k = (if k' = k then Inr v else dict_get d k)"

fun dict_set :: "('k \<times> 'v) list \<Rightarrow> 'k \<Rightarrow> 'v \<Rightarrow> ('k \<times> 'v) list" where
  "dict_set [] k v = [(k, v)]"
| "dict_set ((k', v') # d) k v = (if k' = k then (k', v) # d else (k', v') # dict_set d k v)"

text \<open>\<open>OrderedDict(pairs)\<close> inserts the pairs one after the other.\<close>

definition ordered_dict :: "('k \<times> 'v) list \<Rightarrow> ('k \<times> 'v) list" where
  "ordered_dict pairs = foldl (\<lambda>d (k, v). dict_set d k v) [] pairs"

subsection \<open>The registry and the world the script acts on\<close>

record release_info =
  releases :: "(string \<times> string) list"
  aliases :: "(string \<times> string) list"

text \<open>
  The world holds what the script reads and writes outside its own variables:
  \<^item> \<open>git_status\<close>: the output of \<open>git status --porcelain\<close> when the script starts;
  \<^item> \<open>git_branches\<close>, \<open>git_head\<close>, \<open>git_log\<close>: the branches, the branch checked out and the
    commits (branch and message) made;
  \<^item> \<open>tags_file\<close>: the content of \<open>emscripten-releases-tags.json\<close>, as the structure its
    JSON text denotes, \<open>None\<close> when the text does not parse;
  \<^item> \<open>tot\<close>: what \<open>emsdk.get_emscripten_releases_tot()\<close> answers;
  \<^item> \<open>hook_ok\<close>, \<open>commit_ok\<close>: whether \<open>update_bazel_workspace.sh\<close> and the two git commands
    that stage and commit exit with status 0 (\<open>check_call\<close> raises otherwise);
  \<^item> \<open>stdout\<close>: the lines printed.
  The files that the hook regenerates are not part of the world.
\<close>

record world =
  git_status :: string
  git_branches :: "string list"
  git_head :: string
  git_log :: "(string \<times> string) list"
  tags_file :: "release_info option"
  tot :: "py_error + string"
  hook_ok :: bool
  commit_ok :: bool
  stdout :: "string list"

definition print :: "string \<Rightarrow> world \<Rightarrow> world" where
  "print line w = w\<lparr>stdout := stdout w @ [line]\<rparr>"

text \<open>
  Modelled from the spec: \<open>emsdk.load_releases_info\<close> lives in \<open>emsdk.py\<close>, outside the
  sources at hand. The spec has the registry loaded from its persisted form and the load
  fail when that form cannot be parsed.
\<close>

definition load_releases_info :: "world \<Rightarrow> py_error + release_info" where
  "load_releases_info w = (case tags_file w of None \<Rightarrow> Inl RegistryLoadError | Some r \<Rightarrow> Inr r)"

text \<open>
  Modelled from the spec: \<open>emsdk.get_emscripten_releases_tot\<close> lives in \<open>emsdk.py\<close> too. The
  spec has it return an opaque provenance identifier, failures being fatal.
\<close>

definition get_emscripten_releases_tot :: "world \<Rightarrow> py_error + string" where
  "get_emscripten_releases_tot w = tot w"

text \<open>\<open>git checkout -b name\<close> fails when the branch exists.\<close>

definition git_checkout_b :: "string \<Rightarrow> world \<Rightarrow> py_error + world" where
  "git_checkout_b name w =
     (if name \<in> set (git_branches w) then Inl CalledProcessError
      else Inr (w\<lparr>git_branches := git_branches w @ [name], git_head := name\<rparr>))"

subsection \<open>Sorting the releases\<close>

text \<open>
  \<open>releases.sort(key=lambda pair: version_to_list(pair[0]))\<close> computes the key of every
  item first (a key that does not parse raises), then sorts the items by their keys with a
  stable sort; Python compares lists of integers lexicographically, a proper prefix being
  smaller. Lines 38 to 41 then rebuild the dictionary from the reversed list.
\<close>

definition release_keys :: "(string \<times> string) list \<Rightarrow> py_error + int list list" where
  "release_keys items = map_result (\<lambda>pair. version_to_list (fst pair)) items"

definition sort_releases :: "(string \<times> string) list \<Rightarrow> py_error + (string \<times> string) list" where
  "sort_releases items =
     (case release_keys items of
        Inl e \<Rightarrow> Inl e
      | Inr keys \<Rightarrow> Inr (map snd (sort_key fst (zip keys items))))"

definition resort_releases :: "(string \<times> string) list \<Rightarrow> py_error + (string \<times> string) list" where
  "resort_releases items =
     (case sort_releases items of
        Inl e \<Rightarrow> Inl e
      | Inr sorted_items \<Rightarrow> Inr (ordered_dict (rev sorted_items)))"

subsection \<open>\<open>main\<close>\<close>

text \<open>Line 29, the branch name, and line 34, the new version string.\<close>

definition branch_name :: "int list \<Rightarrow> string" where
  "branch_name new_version = ''version_'' @ join ''_'' (map py_str new_version)"

definition version_string :: "int list \<Rightarrow> string" where
  "version_string new_version = join ''.'' (map py_str new_version)"

text \<open>Line 35: \<open>args[0] if args else emsdk.get_emscripten_releases_tot()\<close>.\<close>

definition provenance :: "string list \<Rightarrow> world \<Rightarrow> py_error + string" where
  "provenance args w = (case args of [] \<Rightarrow> get_emscripten_releases_tot w | a # _ \<Rightarrow> Inr a)"

text \<open>
  \<open>main\<close> returns what the Python function returns or raises, together with the world it
  leaves behind. In the order of the source: the cleanliness check (lines 22 to 24), the
  load and the parse of \<open>aliases["latest"]\<close> (26, 27), the increment (28), the branch (29,
  32), the new version string and its provenance (34, 35), the insertion (37), the
  re-sort (38 to 41), the alias (42), the file (44 to 46), the hook (48), the commit (51,
  52). An exception leaves the world as it is at that point: nothing is rolled back.
\<close>

definition main :: "string list \<Rightarrow> world \<Rightarrow> (py_error + int) \<times> world" where
  "main args w =
     (if bytes_strip (git_status w) \<noteq> [] then
        (Inl (SystemExit 1), print ''tree is not clean'' w)
      else case load_releases_info w of Inl e \<Rightarrow> (Inl e, w) | Inr release_info \<Rightarrow>
      (case dict_get (aliases release_info) ''latest'' of Inl e \<Rightarrow> (Inl e, w) | Inr latest \<Rightarrow>
      (case version_to_list latest of Inl e \<Rightarrow> (Inl e, w) | Inr parsed \<Rightarrow>
      (case incr_last parsed of Inl e \<Rightarrow> (Inl e, w) | Inr new_version_list \<Rightarrow>
       let branch = branch_name new_version_list in
      (case git_checkout_b branch w of Inl e \<Rightarrow> (Inl e, w) | Inr w1 \<Rightarrow>
       let new_version = version_string new_version_list in
      (case provenance args w1 of Inl e \<Rightarrow> (Inl e, w1) | Inr new_hash \<Rightarrow>
       let w2 = print (''Creating new release: '' @ new_version @ '' -> '' @ new_hash) w1;
           inserted = dict_set (releases release_info) new_version new_hash in
      (case resort_releases inserted of Inl e \<Rightarrow> (Inl e, w2) | Inr resorted \<Rightarrow>
       let release_info' = release_info\<lparr>releases := resorted,
                                         aliases := dict_set (aliases release_info) ''latest'' new_version\<rparr>;
           w3 = w2\<lparr>tags_file := Some release_info'\<rparr>
       in if \<not> hook_ok w3 then (Inl CalledProcessError, w3)
          else if \<not> commit_ok w3 then (Inl CalledProcessError, w3)
          else let w4 = w3\<lparr>git_log := git_log w3 @ [(git_head w3, new_version)]\<rparr>;
                   w5 = print (''New relase created in branch: `'' @ branch @ ''`'') w4
               in (Inr 0, w5))))))))"

text \<open>The exit status of the process: \<open>sys.exit(main(sys.argv[1:]))\<close>.\<close>

definition exit_code :: "py_error + int \<Rightarrow> int" where
  "exit_code r = (case r of Inr n \<Rightarrow> n | Inl (SystemExit n) \<Rightarrow> n | Inl _ \<Rightarrow> 1)"

subsection \<open>The properties the specification talks about\<close>

text \<open>
  Descending version order of the entries of \<open>releases\<close>: every key parses, and the parsed
  lists never increase from one entry to the next (strictly: they decrease).
\<close>

definition descending :: "(string \<times> string) list \<Rightarrow> bool" where
  "descending items =
     (case release_keys items of Inl e \<Rightarrow> False | Inr keys \<Rightarrow> sorted_wrt (\<lambda>a b. b \<le> a) keys)"

definition strictly_descending :: "(string \<times> string) list \<Rightarrow> bool" where
  "strictly_descending items =
     (case release_keys items of Inl e \<Rightarrow> False | Inr keys \<Rightarrow> sorted_wrt (\<lambda>a b. b < a) keys)"

text \<open>The registry invariant: every alias names a key of \<open>releases\<close>.\<close>

definition alias_invariant :: "release_info \<Rightarrow> bool" where
  "alias_invariant r = list_all (\<lambda>(name, version). version \<in> set (map fst (releases r))) (aliases r)"

subsection \<open>Example worlds\<close>

text \<open>
  A clean working tree on branch \<open>main\<close>, a registry with the given releases and the
  given \<open>latest\<close> alias, and external commands that succeed.
\<close>

definition example_world :: "(string \<times> string) list \<Rightarrow> string \<Rightarrow> world" where
  "example_world rels latest =
     \<lparr>git_status = [], git_branches = [''main''], git_head = ''main'', git_log = [],
      tags_file = Some \<lparr>releases = rels, aliases = [(''latest'', latest)]\<rparr>,
      tot = Inr ''0a1b2c'', hook_ok = True, commit_ok = True, stdout = []\<rparr>"

section \<open>Parsing and printing versions\<close>

lemma re_split_not_Nil: "re_split s \<noteq> []"
  by (induction s) (auto split: list.splits)

lemma re_split_no_delim: "\<forall>c \<in> set p. \<not> is_delim c \<Longrightarrow> re_split p = [p]"
  by (induction p) auto

lemma re_split_append:
  "\<forall>c \<in> set p. \<not> is_delim c \<Longrightarrow> is_delim d \<Longrightarrow> re_split (p @ d # s) = p # re_split s"
  by (induction p) auto

lemma length_re_split: "length (re_split s) = Suc (length (filter is_delim s))"
  by (induction s) (auto split: list.splits simp: re_split_not_Nil)

lemma is_digit_digit_char: "d < 10 \<Longrightarrow> is_digit (digit_char d)"
  by (simp add: is_digit_def digit_char_def)

lemma digit_val_digit_char: "d < 10 \<Longrightarrow> digit_val (digit_char d) = d"
  by (simp add: digit_val_def digit_char_def)

lemma str_nat_digits: "\<forall>c \<in> set (str_nat n). is_digit c"
proof (induction n rule: str_nat.induct)
  case (1 n)
  show ?case
  proof (cases "n < 10")
    case True
    then show ?thesis by (subst str_nat.simps) (simp add: is_digit_digit_char)
  next
    case False
    with 1 show ?thesis by (subst str_nat.simps) (simp add: is_digit_digit_char)
  qed
qed

lemma str_nat_not_Nil: "str_nat n \<noteq> []"
  by (subst str_nat.simps) simp

lemma is_digit_not_special:
  "is_digit c \<Longrightarrow> \<not> is_space c \<and> \<not> is_delim c \<and> c \<noteq> CHR ''_'' \<and> c \<noteq> CHR ''+'' \<and> c \<noteq> CHR ''-''"
  by (auto simp: is_digit_def is_space_def is_delim_def Let_def)

lemma foldl_digits_str_nat:
  "foldl (\<lambda>acc c. 10 * acc + digit_val c) 0 (str_nat n) = n"
proof (induction n rule: str_nat.induct)
  case (1 n)
  show ?case
  proof (cases "n < 10")
    case True
    then show ?thesis by (subst str_nat.simps) (simp add: digit_val_digit_char)
  next
    case False
    with 1 show ?thesis by (subst str_nat.simps) (simp add: digit_val_digit_char)
  qed
qed

lemma valid_digits_all: "ds \<noteq> [] \<Longrightarrow> \<forall>c \<in> set ds. is_digit c \<Longrightarrow> valid_digits ds"
  by (induction ds rule: valid_digits.induct) (auto dest: is_digit_not_special)

lemma strip_with_id:
  "s \<noteq> [] \<Longrightarrow> \<not> sp (hd s) \<Longrightarrow> \<not> sp (last s) \<Longrightarrow> strip_with sp s = s"
proof -
  assume a: "s \<noteq> []" "\<not> sp (hd s)" "\<not> sp (last s)"
  then have 1: "dropWhile sp s = s" by (cases s) auto
  have "hd (rev s) = last s" using a(1) by (simp add: hd_rev)
  then have 2: "dropWhile sp (rev s) = rev s" using a by (cases s rule: rev_cases) auto
  show ?thesis by (simp add: strip_with_def 1 2)
qed

lemma py_int_digits:
  assumes "ds \<noteq> []" and "\<forall>c \<in> set ds. is_digit c"
  shows "py_int ds = Inr (int (foldl (\<lambda>acc c. 10 * acc + digit_val c) 0 ds))"
proof -
  have "hd ds \<in> set ds" "last ds \<in> set ds" using assms(1) by simp_all
  then have h: "is_digit (hd ds)" "is_digit (last ds)" using assms(2) by blast+
  then have st: "strip ds = ds"
    using assms(1) by (simp add: strip_def strip_with_id is_digit_not_special)
  have nf: "filter (\<lambda>c. c \<noteq> CHR ''_'') ds = ds"
    using assms(2) by (auto simp: filter_id_conv dest: is_digit_not_special)
  obtain c r where ds: "ds = c # r" using assms(1) by (cases ds) auto
  with h have "c \<noteq> CHR ''+''" "c \<noteq> CHR ''-''" by (auto dest: is_digit_not_special)
  then show ?thesis
    using st nf valid_digits_all[OF assms] unfolding ds
    by (simp add: py_int_def digits_value_def)
qed

lemma py_int_str_nat: "py_int (str_nat n) = Inr (int n)"
  by (simp add: py_int_digits str_nat_not_Nil str_nat_digits foldl_digits_str_nat)

lemma py_int_py_str_nat: "py_int (py_str (int n)) = Inr (int n)"
  by (simp add: py_str_def py_int_str_nat)

lemma py_str_nat_no_delim: "\<forall>c \<in> set (py_str (int n)). \<not> is_delim c"
  using str_nat_digits by (auto simp: py_str_def dest: is_digit_not_special)

lemma re_split_3:
  assumes "\<forall>c \<in> set a. \<not> is_delim c" "\<forall>c \<in> set b. \<not> is_delim c" "\<forall>c \<in> set c. \<not> is_delim c"
  shows "take 3 (re_split (a @ CHR ''.'' # b @ CHR ''.'' # c)) = [a, b, c]"
    and "is_delim d \<Longrightarrow> take 3 (re_split (a @ CHR ''.'' # b @ CHR ''.'' # c @ d # rest)) = [a, b, c]"
proof -
  have dot: "is_delim CHR ''.''" by (simp add: is_delim_def)
  show "take 3 (re_split (a @ CHR ''.'' # b @ CHR ''.'' # c)) = [a, b, c]"
    using re_split_append[OF assms(1) dot] re_split_append[OF assms(2) dot]
      re_split_no_delim[OF assms(3)] by simp
  show "take 3 (re_split (a @ CHR ''.'' # b @ CHR ''.'' # c @ d # rest)) = [a, b, c]" if "is_delim d"
    using re_split_append[OF assms(1) dot] re_split_append[OF assms(2) dot]
      re_split_append[OF assms(3) that] by simp
qed

lemma map_result_eq_Inr: "map_result f xs = Inr ys \<longleftrightarrow> map f xs = map Inr ys"
proof (induction xs arbitrary: ys)
  case Nil
  then show ?case by auto
next
  case (Cons x xs)
  show ?case
  proof (cases "f x")
    case (Inl e)
    then show ?thesis by (cases ys) auto
  next
    case (Inr y)
    then show ?thesis using Cons.IH [of "tl ys"]
      by (cases ys) (auto split: sum.splits)
  qed
qed

lemma map_result_length: "map_result f xs = Inr ys \<Longrightarrow> length ys = length xs"
  by (metis length_map map_result_eq_Inr)

lemma re_split_parts_no_delim: "p \<in> set (re_split s) \<Longrightarrow> c \<in> set p \<Longrightarrow> \<not> is_delim c"
proof (induction s arbitrary: p)
  case Nil
  then show ?case by simp
next
  case (Cons a s)
  show ?case
  proof (cases "is_delim a")
    case True
    with Cons show ?thesis by auto
  next
    case False
    obtain q qs where q: "re_split s = q # qs"
      using re_split_not_Nil [of s] by (cases "re_split s") auto
    with False Cons.prems have "p = a # q \<or> p \<in> set qs" by auto
    then show ?thesis
    proof
      assume "p = a # q"
      with Cons.prems(2) have "c = a \<or> c \<in> set q" by auto
      then show ?thesis using False Cons.IH [of q] q by auto
    next
      assume "p \<in> set qs"
      then show ?thesis using Cons.IH [of p] Cons.prems(2) q by auto
    qed
  qed
qed

lemma set_strip_with: "set (strip_with sp s) \<subseteq> set s"
proof -
  have "set (dropWhile sp (rev (dropWhile sp s))) \<subseteq> set (rev (dropWhile sp s))"
    by (rule set_dropWhileD [THEN subsetI])
  also have "\<dots> \<subseteq> set s" using set_dropWhileD [of _ sp s] by auto
  finally show ?thesis by (simp add: strip_with_def)
qed

lemma py_int_nonneg:
  assumes "py_int p = Inr i" and "CHR ''-'' \<notin> set p"
  shows "0 \<le> i"
proof -
  have "CHR ''-'' \<notin> set (strip p)" using assms(2) set_strip_with [of is_space p] by (auto simp: strip_def)
  then show ?thesis using assms(1)
    by (cases "strip p") (auto simp: py_int_def Let_def split: if_splits)
qed

lemma version_to_list_nonneg:
  assumes "version_to_list s = Inr v" and "i \<in> set v"
  shows "0 \<le> i"
proof -
  from assms(1) have m: "map py_int (take 3 (re_split s)) = map Inr v"
    by (simp add: version_to_list_def map_result_eq_Inr)
  then have l: "length (take 3 (re_split s)) = length v" by (metis length_map)
  from assms(2) obtain k where k: "k < length v" "v ! k = i" by (auto simp: in_set_conv_nth)
  let ?p = "take 3 (re_split s) ! k"
  from m k l have pi: "py_int ?p = Inr i" by (metis nth_map)
  have "?p \<in> set (take 3 (re_split s))" using k(1) l by (metis nth_mem)
  then have "?p \<in> set (re_split s)" by (rule in_set_takeD)
  then have "CHR ''-'' \<notin> set ?p" using re_split_parts_no_delim [of ?p s "CHR ''-''"]
    by (auto simp: is_delim_def)
  with pi show ?thesis by (rule py_int_nonneg)
qed

lemma version_to_list_length:
  assumes "version_to_list s = Inr v"
  shows "v \<noteq> []" and "length v \<le> 3"
proof -
  from assms have l: "length v = length (take 3 (re_split s))"
    unfolding version_to_list_def by (rule map_result_length)
  then show "length v \<le> 3" by simp
  from l show "v \<noteq> []" using re_split_not_Nil [of s] by (cases "re_split s") auto
qed

lemma py_str_nonneg_no_delim: "0 \<le> i \<Longrightarrow> \<forall>c \<in> set (py_str i). \<not> is_delim c"
  using py_str_nat_no_delim [of "nat i"] by simp

lemma py_int_py_str_nonneg: "0 \<le> i \<Longrightarrow> py_int (py_str i) = Inr i"
  using py_int_py_str_nat [of "nat i"] by simp

lemma version_to_list_version_string:
  assumes "v \<noteq> []" and "length v \<le> 3" and "\<forall>i \<in> set v. 0 \<le> i"
  shows "version_to_list (version_string v) = Inr v"
proof -
  have dot: "is_delim CHR ''.''" by (simp add: is_delim_def)
  from assms(1,2) consider a where "v = [a]" | a b where "v = [a, b]" | a b c where "v = [a, b, c]"
    by (cases v; cases "tl v"; cases "tl (tl v)"; cases "tl (tl (tl v))") auto
  then show ?thesis
  proof cases
    case 1
    with assms(3) have "0 \<le> a" by simp
    then show ?thesis unfolding 1
      by (simp add: version_to_list_def version_string_def re_split_no_delim
          py_str_nonneg_no_delim py_int_py_str_nonneg)
  next
    case 2
    with assms(3) have n: "0 \<le> a" "0 \<le> b" by simp_all
    have "re_split (py_str a @ CHR ''.'' # py_str b) = [py_str a, py_str b]"
      using re_split_append [OF py_str_nonneg_no_delim [OF n(1)] dot, of "py_str b"]
        re_split_no_delim [OF py_str_nonneg_no_delim [OF n(2)]] by simp
    then show ?thesis unfolding 2 using n
      by (simp add: version_to_list_def version_string_def py_int_py_str_nonneg)
  next
    case 3
    with assms(3) have n: "0 \<le> a" "0 \<le> b" "0 \<le> c" by simp_all
    have "take 3 (re_split (py_str a @ CHR ''.'' # py_str b @ CHR ''.'' # py_str c))
        = [py_str a, py_str b, py_str c]"
      by (rule re_split_3(1) [OF py_str_nonneg_no_delim [OF n(1)] py_str_nonneg_no_delim [OF n(2)]
            py_str_nonneg_no_delim [OF n(3)]])
    then show ?thesis unfolding 3 using n
      by (simp add: version_to_list_def version_string_def py_int_py_str_nonneg)
  qed
qed

lemma next_version_parses:
  assumes "version_to_list latest = Inr parsed"
  shows "version_to_list (version_string (butlast parsed @ [last parsed + 1]))
      = Inr (butlast parsed @ [last parsed + 1])"
proof (rule version_to_list_version_string)
  have ne: "parsed \<noteq> []" and le: "length parsed \<le> 3"
    using version_to_list_length [OF assms] by simp_all
  show "butlast parsed @ [last parsed + 1] \<noteq> []" by simp
  show "length (butlast parsed @ [last parsed + 1]) \<le> 3" using ne le by simp
  show "\<forall>i \<in> set (butlast parsed @ [last parsed + 1]). 0 \<le> i"
  proof
    fix i assume "i \<in> set (butlast parsed @ [last parsed + 1])"
    then have "i \<in> set parsed \<or> i = last parsed + 1" by (auto dest: in_set_butlastD)
    moreover have "0 \<le> last parsed" using version_to_list_nonneg [OF assms, of "last parsed"] ne by simp
    ultimately show "0 \<le> i" using version_to_list_nonneg [OF assms, of i] by auto
  qed
qed

section \<open>Dictionaries and the re-sort\<close>

lemma dict_set_keys: "fst ` set (dict_set d k v) = insert k (fst ` set d)"
proof (induction d)
  case Nil
  then show ?case by simp
next
  case (Cons p d)
  obtain k' v' where p: "p = (k', v')" by (cases p)
  show ?case unfolding p using Cons.IH by (cases "k' = k") auto
qed

lemma dict_set_fresh: "k \<notin> fst ` set d \<Longrightarrow> dict_set d k v = d @ [(k, v)]"
  by (induction d) auto

lemma dict_set_subset: "set (dict_set d k v) \<subseteq> insert (k, v) (set d)"
proof (induction d)
  case Nil
  then show ?case by simp
next
  case (Cons p d)
  obtain k' v' where p: "p = (k', v')" by (cases p)
  show ?case unfolding p using Cons.IH by (cases "k' = k") auto
qed

lemma dict_set_member: "(k, v) \<in> set (dict_set d k v)"
  by (induction d) auto

lemma py_dict_dict_set: "py_dict d \<Longrightarrow> py_dict (dict_set d k v)"
  unfolding py_dict_def
proof (induction d)
  case Nil
  then show ?case by simp
next
  case (Cons p d)
  obtain k' v' where p: "p = (k', v')" by (cases p)
  show ?case
  proof (cases "k' = k")
    case True
    with Cons.prems p show ?thesis by simp
  next
    case False
    have "fst ` set (dict_set d k v) = insert k (fst ` set d)" by (rule dict_set_keys)
    with False Cons p show ?thesis by simp
  qed
qed

lemma dict_get_iff: "py_dict d \<Longrightarrow> dict_get d k = Inr v \<longleftrightarrow> (k, v) \<in> set d"
  unfolding py_dict_def
proof (induction d)
  case Nil
  then show ?case by simp
next
  case (Cons p d)
  obtain k' v' where p: "p = (k', v')" by (cases p)
  show ?case
  proof (cases "k' = k")
    case True
    with Cons.prems p have "(k, v) \<notin> set d" by (auto simp: image_iff)
    with True p show ?thesis by auto
  next
    case False
    with Cons p show ?thesis by auto
  qed
qed

lemma dict_get_dict_set: "dict_get (dict_set d k v) k = Inr v"
  by (induction d) auto

lemma foldl_dict_set:
  "distinct (map fst (acc @ ps)) \<Longrightarrow> foldl (\<lambda>d (k, v). dict_set d k v) acc ps = acc @ ps"
proof (induction ps arbitrary: acc)
  case Nil
  then show ?case by simp
next
  case (Cons p ps)
  obtain k v where p: "p = (k, v)" by (cases p)
  from Cons.prems p have "k \<notin> fst ` set acc" by auto
  then have "dict_set acc k v = acc @ [(k, v)]" by (rule dict_set_fresh)
  moreover from Cons.prems p have "distinct (map fst ((acc @ [(k, v)]) @ ps))" by simp
  ultimately show ?case using Cons.IH [of "acc @ [(k, v)]"] p by simp
qed

lemma ordered_dict_id: "py_dict ps \<Longrightarrow> ordered_dict ps = ps"
  unfolding py_dict_def ordered_dict_def using foldl_dict_set [of "[]" ps] by simp

lemma foldl_dict_set_keys:
  "fst ` set (foldl (\<lambda>d (k, v). dict_set d k v) acc ps) = fst ` set acc \<union> fst ` set ps"
proof (induction ps arbitrary: acc)
  case Nil
  then show ?case by simp
next
  case (Cons p ps)
  obtain k v where p: "p = (k, v)" by (cases p)
  show ?case using Cons.IH [of "dict_set acc k v"] p by (auto simp: dict_set_keys)
qed

lemma ordered_dict_keys: "fst ` set (ordered_dict ps) = fst ` set ps"
  unfolding ordered_dict_def using foldl_dict_set_keys [of "[]" ps] by simp

lemma release_keys_zip:
  assumes "release_keys items = Inr ks" and "(k, item) \<in> set (zip ks items)"
  shows "version_to_list (fst item) = Inr k"
proof -
  from assms(1) have m: "map (\<lambda>pair. version_to_list (fst pair)) items = map Inr ks"
    by (simp add: release_keys_def map_result_eq_Inr)
  from assms(2) obtain i where i: "i < length ks" "i < length items" "ks ! i = k" "items ! i = item"
    by (auto simp: in_set_zip)
  from m i(1,2) have "version_to_list (fst (items ! i)) = Inr (ks ! i)"
    by (metis nth_map)
  with i show ?thesis by simp
qed

lemma release_keys_length: "release_keys items = Inr ks \<Longrightarrow> length ks = length items"
  unfolding release_keys_def by (rule map_result_length)

lemma sorted_items_set:
  "release_keys items = Inr ks \<Longrightarrow> set (map snd (sort_key fst (zip ks items))) = set items"
proof -
  assume "release_keys items = Inr ks"
  then have l: "length ks = length items" by (rule release_keys_length)
  have "set (map snd (sort_key fst (zip ks items))) = snd ` set (zip ks items)" by simp
  also have "\<dots> = set (map snd (zip ks items))" by simp
  also have "\<dots> = set items" using l by (simp only: map_snd_zip)
  finally show ?thesis .
qed

lemma sorted_items_keys:
  assumes "release_keys items = Inr ks"
  shows "release_keys (map snd (sort_key fst (zip ks items))) = Inr (map fst (sort_key fst (zip ks items)))"
proof -
  have "version_to_list (fst (snd z)) = Inr (fst z)" if "z \<in> set (sort_key fst (zip ks items))" for z
    using that release_keys_zip [OF assms, of "fst z" "snd z"] by simp
  then show ?thesis by (simp add: release_keys_def map_result_eq_Inr)
qed

lemma release_keys_rev: "release_keys items = Inr ks \<Longrightarrow> release_keys (rev items) = Inr (rev ks)"
  unfolding release_keys_def map_result_eq_Inr by (simp only: rev_map [symmetric])

lemma sorted_items_py_dict:
  assumes "release_keys items = Inr ks" and "py_dict items"
  shows "py_dict (map snd (sort_key fst (zip ks items)))"
proof -
  let ?zs = "sort_key fst (zip ks items)"
  from assms(2) have di: "distinct items" and inj: "inj_on fst (set items)"
    by (simp_all add: py_dict_def distinct_map)
  have "distinct ?zs" using di by (simp add: distinct_zipI2)
  moreover have "inj_on snd (set ?zs)"
  proof (rule inj_onI)
    fix a b assume ab: "a \<in> set ?zs" "b \<in> set ?zs" "snd a = snd b"
    from ab(1) have "version_to_list (fst (snd a)) = Inr (fst a)"
      using release_keys_zip [OF assms(1), of "fst a" "snd a"] by simp
    moreover from ab(2) have "version_to_list (fst (snd b)) = Inr (fst b)"
      using release_keys_zip [OF assms(1), of "fst b" "snd b"] by simp
    ultimately have "fst a = fst b" using ab(3) by simp
    with \<open>snd a = snd b\<close> show "a = b" by (simp add: prod_eq_iff)
  qed
  ultimately have "distinct (map snd ?zs)" by (simp add: distinct_map)
  moreover have "inj_on fst (set (map snd ?zs))"
    using inj sorted_items_set [OF assms(1)] by simp
  ultimately show ?thesis
    unfolding py_dict_def distinct_map [of fst "map snd ?zs"] by (rule conjI)
qed

lemma resort_releases_Inr:
  assumes "resort_releases items = Inr out" and "py_dict items"
  obtains ks where "release_keys items = Inr ks"
    and "out = rev (map snd (sort_key fst (zip ks items)))"
proof -
  from assms(1) obtain ks where ks: "release_keys items = Inr ks"
    and out: "out = ordered_dict (rev (map snd (sort_key fst (zip ks items))))"
    by (auto simp: resort_releases_def sort_releases_def split: sum.splits)
  have "py_dict (rev (map snd (sort_key fst (zip ks items))))"
    using sorted_items_py_dict [OF ks assms(2)] by (simp add: py_dict_def rev_map [symmetric])
  with out have "out = rev (map snd (sort_key fst (zip ks items)))" by (simp add: ordered_dict_id)
  with ks show ?thesis by (rule that)
qed

lemma resort_releases_descending:
  assumes "resort_releases items = Inr out" and "py_dict items"
  shows "descending out" and "set out = set items" and "py_dict out"
proof -
  from assms obtain ks where ks: "release_keys items = Inr ks"
    and out: "out = rev (map snd (sort_key fst (zip ks items)))"
    by (rule resort_releases_Inr)
  let ?zs = "sort_key fst (zip ks items)"
  have "release_keys out = Inr (rev (map fst ?zs))"
    unfolding out by (rule release_keys_rev) (rule sorted_items_keys [OF ks])
  moreover have "sorted_wrt (\<lambda>a b. b \<le> a) (rev (map fst ?zs))"
    by (simp add: sorted_wrt_rev)
  ultimately show "descending out" by (simp add: descending_def)
  show "set out = set items" unfolding out using sorted_items_set [OF ks] by simp
  show "py_dict out" unfolding out
    using sorted_items_py_dict [OF ks assms(2)] by (simp add: py_dict_def rev_map [symmetric])
qed

lemma resort_releases_keys:
  "resort_releases items = Inr out \<Longrightarrow> fst ` set out = fst ` set items"
proof -
  assume a: "resort_releases items = Inr out"
  then obtain ks where ks: "release_keys items = Inr ks"
    and out: "out = ordered_dict (rev (map snd (sort_key fst (zip ks items))))"
    by (auto simp: resort_releases_def sort_releases_def split: sum.splits)
  have "fst ` set out = fst ` set (map snd (sort_key fst (zip ks items)))"
    unfolding out by (simp add: ordered_dict_keys)
  then show ?thesis using sorted_items_set [OF ks] by simp
qed

lemma insort_key_greatest:
  "\<forall>y \<in> set ys. f y < f x \<Longrightarrow> insort_key f x ys = ys @ [x]"
  by (induction ys) auto

lemma sort_key_strictly_descending:
  "sorted_wrt (\<lambda>a b. f b < f a) xs \<Longrightarrow> sort_key f xs = rev xs"
  by (induction xs) (auto simp: insort_key_greatest)

lemma strictly_descending_distinct:
  fixes ks :: "int list list"
  shows "sorted_wrt (\<lambda>a b. b < a) ks \<Longrightarrow> distinct ks"
  using strict_sorted_iff [of "rev ks"] by (simp add: sorted_wrt_rev)

lemma descending_distinct_strict:
  fixes ks :: "int list list"
  shows "sorted_wrt (\<lambda>a b. b \<le> a) ks \<Longrightarrow> distinct ks \<Longrightarrow> sorted_wrt (\<lambda>a b. b < a) ks"
  using strict_sorted_iff [of "rev ks"] by (simp add: sorted_wrt_rev)

lemma release_keys_py_dict:
  assumes "release_keys items = Inr ks" and "distinct ks"
  shows "py_dict items"
proof -
  from assms(1) have "map (\<lambda>pair. version_to_list (fst pair)) items = map Inr ks"
    by (simp add: release_keys_def map_result_eq_Inr)
  then have "map version_to_list (map fst items) = map Inr ks" by (simp add: comp_def)
  moreover have "distinct (map Inr ks :: (py_error + int list) list)"
    using assms(2) by (simp add: distinct_map)
  ultimately have "distinct (map version_to_list (map fst items))" by simp
  then show ?thesis
    unfolding py_dict_def distinct_map [of version_to_list "map fst items"] by (rule conjunct1)
qed

lemma release_keys_dict_set:
  assumes "release_keys d = Inr ks" and "version_to_list k = Inr v"
  shows "\<exists>ks'. release_keys (dict_set d k h) = Inr ks'"
  using assms
proof (induction d arbitrary: ks)
  case Nil
  then show ?case by (simp add: release_keys_def)
next
  case (Cons p d)
  obtain k' v' where p: "p = (k', v')" by (cases p)
  from Cons.prems(1) p obtain x xs where x: "version_to_list k' = Inr x" and xs: "release_keys d = Inr xs"
    by (auto simp: release_keys_def split: sum.splits)
  from Cons.IH [OF xs Cons.prems(2)] obtain ks' where "release_keys (dict_set d k h) = Inr ks'" by blast
  with x xs p show ?case by (auto simp: release_keys_def)
qed

lemma resort_releases_total:
  "release_keys items = Inr ks \<Longrightarrow> \<exists>out. resort_releases items = Inr out"
  by (simp add: resort_releases_def sort_releases_def)

section \<open>What a run of \<open>main\<close> does\<close>

lemma main_dirty:
  "bytes_strip (git_status w) \<noteq> [] \<Longrightarrow> main args w = (Inl (SystemExit 1), print ''tree is not clean'' w)"
  by (simp add: main_def)

lemma main_Inr:
  assumes "main args w = (Inr n, w')"
  obtains r latest parsed nv h resorted r' where
    "bytes_strip (git_status w) = []"
    "tags_file w = Some r"
    "dict_get (aliases r) ''latest'' = Inr latest"
    "version_to_list latest = Inr parsed"
    "incr_last parsed = Inr nv"
    "branch_name nv \<notin> set (git_branches w)"
    "provenance args w = Inr h"
    "resort_releases (dict_set (releases r) (version_string nv) h) = Inr resorted"
    "tags_file w' = Some r'"
    "releases r' = resorted"
    "aliases r' = dict_set (aliases r) ''latest'' (version_string nv)"
    "git_head w' = branch_name nv"
    "n = 0"
  using assms
  unfolding main_def load_releases_info_def git_checkout_b_def provenance_def
    get_emscripten_releases_tot_def print_def Let_def
  by (auto split: if_splits sum.splits option.splits list.splits)

lemma main_run: "fst (main args w) = Inr n \<Longrightarrow> main args w = (Inr n, snd (main args w))"
  by (simp add: prod_eq_iff)

lemma main_success:
  assumes "bytes_strip (git_status w) = []"
    and "tags_file w = Some r"
    and "dict_get (aliases r) ''latest'' = Inr latest"
    and "version_to_list latest = Inr parsed"
    and "release_keys (releases r) = Inr ks"
    and "branch_name (butlast parsed @ [last parsed + 1]) \<notin> set (git_branches w)"
    and "provenance args w = Inr h"
    and "hook_ok w" and "commit_ok w"
  shows "fst (main args w) = Inr 0"
proof -
  let ?nv = "butlast parsed @ [last parsed + 1]"
  have i: "incr_last parsed = Inr ?nv"
    using version_to_list_length(1) [OF assms(4)] by (simp add: incr_last_def)
  have "\<exists>ks'. release_keys (dict_set (releases r) (version_string ?nv) h) = Inr ks'"
    using assms(5) next_version_parses [OF assms(4)] by (rule release_keys_dict_set)
  then obtain out where out: "resort_releases (dict_set (releases r) (version_string ?nv) h) = Inr out"
    using resort_releases_total by blast
  have p: "provenance args (w\<lparr>git_branches := git_branches w @ [branch_name ?nv], git_head := branch_name ?nv\<rparr>) = Inr h"
    using assms(7) by (cases args) (simp_all add: provenance_def get_emscripten_releases_tot_def)
  show ?thesis
    using assms(1,2,3,4,6,8,9) i out p
    by (simp add: main_def load_releases_info_def git_checkout_b_def print_def Let_def)
qed

section \<open>The claims about versions\<close>

lemma py_str_examples:
  "py_str 1 = ''1''" "py_str 2 = ''2''" "py_str 3 = ''3''"
  by code_simp+

text \<open>
  Claim C2. For all non-negative integers \<open>X\<close>, \<open>Y\<close>, \<open>Z\<close>, the string \<open>"X.Y.Z"\<close> (the three
  numbers printed in decimal and joined by periods) is parsed by \<open>version_to_list\<close> into
  \<open>[X, Y, Z]\<close>, and so is the same string followed by a period or a hyphen and anything
  at all: the components after the third are dropped before they are read as integers.
\<close>

theorem version_to_list_valid:
  "version_to_list (py_str (int x) @ ''.'' @ py_str (int y) @ ''.'' @ py_str (int z))
     = Inr [int x, int y, int z]
   \<and> version_to_list (py_str (int x) @ ''.'' @ py_str (int y) @ ''.'' @ py_str (int z) @ ''.'' @ rest)
     = Inr [int x, int y, int z]
   \<and> version_to_list (py_str (int x) @ ''.'' @ py_str (int y) @ ''.'' @ py_str (int z) @ ''-'' @ rest)
     = Inr [int x, int y, int z]"
  unfolding version_to_list_def
  by (simp add: re_split_3[OF py_str_nat_no_delim py_str_nat_no_delim py_str_nat_no_delim]
        is_delim_def py_int_py_str_nat)

theorem version_to_list_valid_witness:
  "version_to_list ''1.2.3'' = Inr [1, 2, 3] \<and> version_to_list ''1.2.3.4'' = Inr [1, 2, 3]
   \<and> version_to_list ''1.2.3-rc1'' = Inr [1, 2, 3]"
  using version_to_list_valid [of 1 2 3 "''4''"] version_to_list_valid [of 1 2 3 "''rc1''"]
  by (simp add: py_str_examples)

text \<open>
  Claim C10. \<open>version_to_list\<close> does not pad: \<open>"4.5"\<close> gives \<open>[4, 5]\<close>, and whenever it
  returns a list, the list has one integer for each of the first three components of the
  string (the number of components is the number of periods and hyphens plus one). The
  increment then succeeds and adds 1 to the last element of that list, whichever it is.
\<close>

theorem version_to_list_no_padding:
  "version_to_list ''4.5'' = Inr [4, 5] \<and> incr_last [4, 5] = Inr [4, 6]
   \<and> (version_to_list s = Inr v \<longrightarrow>
        length v = min 3 (Suc (length (filter is_delim s)))
        \<and> incr_last v = Inr (butlast v @ [last v + 1]))"
proof -
  have "version_to_list ''4.5'' = Inr [4, 5]" by code_simp
  moreover have "incr_last [4, 5] = Inr [4, 6]" by (simp add: incr_last_def)
  moreover have "length v = min 3 (Suc (length (filter is_delim s)))
        \<and> incr_last v = Inr (butlast v @ [last v + 1])" if h: "version_to_list s = Inr v"
  proof -
    from h have l: "length v = length (take 3 (re_split s))"
      unfolding version_to_list_def by (rule map_result_length)
    then have "length v = min 3 (Suc (length (filter is_delim s)))"
      by (simp add: length_re_split min.commute)
    moreover from l have "v \<noteq> []" using re_split_not_Nil [of s] by (cases "re_split s") auto
    ultimately show ?thesis by (simp add: incr_last_def)
  qed
  ultimately show ?thesis by blast
qed

theorem version_to_list_no_padding_witness:
  "version_to_list ''7'' = Inr [7] \<and> length [7::int] = min 3 (Suc (length (filter is_delim ''7'')))
   \<and> incr_last [7] = Inr [8]"
proof -
  have h: "version_to_list ''7'' = Inr [7]" by code_simp
  show ?thesis using h version_to_list_no_padding [of "''7''" "[7]"] by simp
qed

text \<open>
  Claim C3, as stated, fails for a version with fewer than three components: \<open>"1.2"\<close> is
  parsed into \<open>[1, 2]\<close>, and the increment turns it into \<open>[1, 3]\<close>, changing the minor
  component.
\<close>

theorem incr_last_short_counterexample:
  "version_to_list ''1.2'' = Inr [1, 2] \<and> incr_last [1, 2] = Inr [1, 3]
   \<and> [1, 3] ! 1 \<noteq> [1, 2 :: int] ! 1"
proof -
  have "version_to_list ''1.2'' = Inr [1, 2]" by code_simp
  then show ?thesis by (simp add: incr_last_def)
qed

text \<open>
  Claim C3, amended. The increment adds exactly 1 to the last element of the list:
  \<open>[1, 2, 3]\<close> becomes \<open>[1, 2, 4]\<close>, and for every list of three components, which is what
  every version string with at least three components is parsed into, the patch component
  grows by one while major and minor stay as they are.
\<close>

theorem incr_last_patch:
  "incr_last [1, 2, 3] = Inr [1, 2, 4]
   \<and> incr_last [major, minor, patch] = Inr [major, minor, patch + 1]
   \<and> (version_to_list s = Inr v \<and> 2 \<le> length (filter is_delim s) \<longrightarrow>
        (\<exists>a b c. v = [a, b, c] \<and> incr_last v = Inr [a, b, c + 1]))"
proof -
  have "\<exists>a b c. v = [a, b, c] \<and> incr_last v = Inr [a, b, c + 1]"
    if h: "version_to_list s = Inr v" and d: "2 \<le> length (filter is_delim s)"
  proof -
    from h have "length v = length (take 3 (re_split s))"
      unfolding version_to_list_def by (rule map_result_length)
    with d have "length v = 3" by (simp add: length_re_split)
    then obtain a b c where "v = [a, b, c]"
      by (cases v; cases "tl v"; cases "tl (tl v)") auto
    then show ?thesis by (simp add: incr_last_def)
  qed
  then show ?thesis by (auto simp: incr_last_def)
qed

theorem incr_last_patch_witness:
  "version_to_list ''3.1.9-asserts'' = Inr [3, 1, 9] \<and> incr_last [3, 1, 9] = Inr [3, 1, 10]"
proof -
  have h: "version_to_list ''3.1.9-asserts'' = Inr [3, 1, 9]" by code_simp
  have d: "2 \<le> length (filter is_delim ''3.1.9-asserts'')" by code_simp
  show ?thesis using h d incr_last_patch [of 0 0 0 "''3.1.9-asserts''" "[3, 1, 9]"] by simp
qed

text \<open>
  Claim C8. The branch name is the tag \<open>version_\<close> followed by the components of the
  incremented version joined by underscores: \<open>version_2_0_1\<close> for \<open>[2, 0, 1]\<close>, which is
  the branch the script is on after promoting a registry whose latest release is \<open>2.0.0\<close>.
\<close>

theorem branch_name_version:
  "branch_name [2, 0, 1] = ''version_2_0_1''
   \<and> branch_name [a, b, c] = ''version_'' @ py_str a @ ''_'' @ py_str b @ ''_'' @ py_str c
   \<and> git_head (snd (main [] (example_world [(''2.0.0'', ''abc'')] ''2.0.0''))) = ''version_2_0_1''"
proof -
  have "branch_name [2, 0, 1] = ''version_2_0_1''" by code_simp
  moreover have "git_head (snd (main [] (example_world [(''2.0.0'', ''abc'')] ''2.0.0'')))
      = ''version_2_0_1''" by code_simp
  ultimately show ?thesis by (simp add: branch_name_def)
qed

section \<open>The claims about a promotion\<close>

text \<open>
  Claim C1. Promoting the registry with releases \<open>{"1.0.0": "abc"}\<close> and alias
  \<open>latest = "1.0.0"\<close> with the explicit provenance \<open>"def"\<close>, from a clean tree in which
  the branch does not exist yet and with external commands that succeed, returns 0 and
  leaves the registry with releases \<open>{"1.0.1": "def", "1.0.0": "abc"}\<close> in this order and
  \<open>latest = "1.0.1"\<close>.
\<close>

theorem promotion_example:
  assumes "bytes_strip (git_status w) = []"
    and "tags_file w = Some \<lparr>releases = [(''1.0.0'', ''abc'')], aliases = [(''latest'', ''1.0.0'')]\<rparr>"
    and "''version_1_0_1'' \<notin> set (git_branches w)"
    and "hook_ok w" and "commit_ok w"
  shows "fst (main [''def''] w) = Inr 0
    \<and> tags_file (snd (main [''def''] w))
        = Some \<lparr>releases = [(''1.0.1'', ''def''), (''1.0.0'', ''abc'')],
                aliases = [(''latest'', ''1.0.1'')]\<rparr>"
proof -
  have v: "version_to_list ''1.0.0'' = Inr [1, 0, 0]" by code_simp
  have i: "incr_last [1, 0, 0] = Inr [1, 0, 1]" by (simp add: incr_last_def)
  have b: "branch_name [1, 0, 1] = ''version_1_0_1''" by code_simp
  have s: "version_string [1, 0, 1] = ''1.0.1''" by code_simp
  have r: "resort_releases [(''1.0.0'', ''abc''), (''1.0.1'', ''def'')]
      = Inr [(''1.0.1'', ''def''), (''1.0.0'', ''abc'')]" by code_simp
  show ?thesis
    using assms
    by (simp add: main_def load_releases_info_def v i b s r git_checkout_b_def provenance_def
        print_def Let_def)
qed

theorem promotion_example_witness:
  "fst (main [''def''] (example_world [(''1.0.0'', ''abc'')] ''1.0.0'')) = Inr 0
   \<and> tags_file (snd (main [''def''] (example_world [(''1.0.0'', ''abc'')] ''1.0.0'')))
        = Some \<lparr>releases = [(''1.0.1'', ''def''), (''1.0.0'', ''abc'')],
                aliases = [(''latest'', ''1.0.1'')]\<rparr>"
proof -
  have "bytes_strip (git_status (example_world [(''1.0.0'', ''abc'')] ''1.0.0'')) = []"
    by (simp add: example_world_def bytes_strip_def strip_with_def)
  then show ?thesis
    using promotion_example [of "example_world [(''1.0.0'', ''abc'')] ''1.0.0''"]
    by (simp add: example_world_def)
qed

text \<open>
  Claim C4. When \<open>git status --porcelain\<close> reports anything but whitespace, \<open>main\<close> raises
  \<open>SystemExit(1)\<close>, so the process exits with status 1, and the only thing that has changed
  is the line printed: the registry file, the branches, the branch checked out and the
  commits are as they were, and the registry was not even loaded.
\<close>

theorem dirty_tree_exit:
  assumes "bytes_strip (git_status w) \<noteq> []"
  shows "fst (main args w) = Inl (SystemExit 1)
    \<and> exit_code (fst (main args w)) = 1
    \<and> snd (main args w) = w\<lparr>stdout := stdout w @ [''tree is not clean'']\<rparr>
    \<and> tags_file (snd (main args w)) = tags_file w
    \<and> git_branches (snd (main args w)) = git_branches w
    \<and> git_head (snd (main args w)) = git_head w
    \<and> git_log (snd (main args w)) = git_log w"
  using assms by (simp add: main_dirty print_def exit_code_def)

theorem dirty_tree_exit_witness:
  "exit_code (fst (main [''def''] ((example_world [(''1.0.0'', ''abc'')] ''1.0.0'')\<lparr>git_status := '' M emsdk.py''\<rparr>))) = 1
   \<and> tags_file (snd (main [''def''] ((example_world [(''1.0.0'', ''abc'')] ''1.0.0'')\<lparr>git_status := '' M emsdk.py''\<rparr>)))
       = Some \<lparr>releases = [(''1.0.0'', ''abc'')], aliases = [(''latest'', ''1.0.0'')]\<rparr>"
proof -
  have "bytes_strip (git_status ((example_world [(''1.0.0'', ''abc'')] ''1.0.0'')\<lparr>git_status := '' M emsdk.py''\<rparr>)) \<noteq> []"
    by code_simp
  then show ?thesis
    using dirty_tree_exit [of "(example_world [(''1.0.0'', ''abc'')] ''1.0.0'')\<lparr>git_status := '' M emsdk.py''\<rparr>" "[''def'']"]
    by (simp add: example_world_def exit_code_def)
qed

text \<open>
  Claim C5, as stated, fails when two keys parse to the same list: promoting a registry
  with the releases \<open>1.0.0\<close> and \<open>1.0.0-asserts\<close> succeeds and leaves \<open>1.0.0-asserts\<close>
  next to \<open>1.0.0\<close>, both with the version \<open>[1, 0, 0]\<close>, so the order is not strict.
\<close>

theorem releases_strictly_descending_counterexample:
  "fst (main [''def''] (example_world [(''1.0.0'', ''abc''), (''1.0.0-asserts'', ''xyz'')] ''1.0.0'')) = Inr 0
   \<and> tags_file (snd (main [''def'']
         (example_world [(''1.0.0'', ''abc''), (''1.0.0-asserts'', ''xyz'')] ''1.0.0'')))
       = Some \<lparr>releases = [(''1.0.1'', ''def''), (''1.0.0-asserts'', ''xyz''), (''1.0.0'', ''abc'')],
               aliases = [(''latest'', ''1.0.1'')]\<rparr>
   \<and> \<not> strictly_descending [(''1.0.1'', ''def''), (''1.0.0-asserts'', ''xyz''), (''1.0.0'', ''abc'')]"
  by code_simp

text \<open>
  Claim C5, amended. After a successful promotion of a registry whose \<open>releases\<close> is a
  dictionary, the entries of \<open>releases\<close> are in descending order of the integer lists that
  \<open>version_to_list\<close> gives for their keys, compared lexicographically: no entry has a
  smaller version than a later one, and the order is strict whenever no two keys parse to
  the same list. Strings are not compared: \<open>1.10.0\<close> comes before \<open>1.9.0\<close>.
\<close>

theorem releases_descending:
  assumes "main args w = (Inr n, w')" and "tags_file w = Some r" and "py_dict (releases r)"
  shows "(\<exists>r'. tags_file w' = Some r' \<and> descending (releases r')
           \<and> (\<forall>keys. release_keys (releases r') = Inr keys \<and> distinct keys
                 \<longrightarrow> strictly_descending (releases r')))
    \<and> resort_releases [(''1.9.0'', a), (''1.10.0'', b)] = Inr [(''1.10.0'', b), (''1.9.0'', a)]"
proof -
  from assms(1) obtain r0 nv h resorted r' where
    r0: "tags_file w = Some r0"
    and res: "resort_releases (dict_set (releases r0) (version_string nv) h) = Inr resorted"
    and r': "tags_file w' = Some r'" "releases r' = resorted"
    by (rule main_Inr)
  from r0 assms(2) have [simp]: "r0 = r" by simp
  have d: "py_dict (dict_set (releases r) (version_string nv) h)"
    using assms(3) by (rule py_dict_dict_set)
  have desc: "descending (releases r')"
    using resort_releases_descending(1) [OF res] d r'(2) by simp
  moreover have "strictly_descending (releases r')"
    if "release_keys (releases r') = Inr keys" "distinct keys" for keys
    using desc that by (simp add: descending_def strictly_descending_def descending_distinct_strict)
  moreover have "resort_releases [(''1.9.0'', a), (''1.10.0'', b)]
      = Inr [(''1.10.0'', b), (''1.9.0'', a)]"
  proof -
    have "release_keys [(''1.9.0'', a), (''1.10.0'', b)] = Inr [[1, 9, 0], [1, 10, 0]]"
    proof -
      have "version_to_list ''1.9.0'' = Inr [1, 9, 0]" "version_to_list ''1.10.0'' = Inr [1, 10, 0]"
        by code_simp+
      then show ?thesis by (simp add: release_keys_def)
    qed
    then show ?thesis
      by (simp add: resort_releases_def sort_releases_def ordered_dict_def)
  qed
  ultimately show ?thesis using r'(1) by blast
qed

theorem releases_descending_witness:
  "py_dict [(''1.9.0'', ''abc''), (''1.10.0'', ''xyz'')]
   \<and> tags_file (snd (main [''def'']
         (example_world [(''1.9.0'', ''abc''), (''1.10.0'', ''xyz'')] ''1.10.0'')))
       = Some \<lparr>releases = [(''1.10.1'', ''def''), (''1.10.0'', ''xyz''), (''1.9.0'', ''abc'')],
               aliases = [(''latest'', ''1.10.1'')]\<rparr>
   \<and> descending [(''1.10.1'', ''def''), (''1.10.0'', ''xyz''), (''1.9.0'', ''abc'')]
   \<and> strictly_descending [(''1.10.1'', ''def''), (''1.10.0'', ''xyz''), (''1.9.0'', ''abc'')]"
proof -
  let ?w = "example_world [(''1.9.0'', ''abc''), (''1.10.0'', ''xyz'')] ''1.10.0''"
  let ?out = "[(''1.10.1'', ''def''), (''1.10.0'', ''xyz''), (''1.9.0'', ''abc'')]"
  have "fst (main [''def''] ?w) = Inr 0" by code_simp
  then have m: "main [''def''] ?w = (Inr 0, snd (main [''def''] ?w))" by (rule main_run)
  have t: "tags_file ?w = Some \<lparr>releases = [(''1.9.0'', ''abc''), (''1.10.0'', ''xyz'')],
      aliases = [(''latest'', ''1.10.0'')]\<rparr>"
    by (simp add: example_world_def)
  have d: "py_dict (releases \<lparr>releases = [(''1.9.0'', ''abc''), (''1.10.0'', ''xyz'')],
      aliases = [(''latest'', ''1.10.0'')]\<rparr>)"
    by (simp add: py_dict_def)
  have e: "tags_file (snd (main [''def''] ?w))
      = Some \<lparr>releases = ?out, aliases = [(''latest'', ''1.10.1'')]\<rparr>" by code_simp
  have k: "release_keys ?out = Inr [[1, 10, 1], [1, 10, 0], [1, 9, 0]]" by code_simp
  have "distinct [[1, 10, 1], [1, 10, 0], [1, 9, 0 :: int]]" by simp
  with k e show ?thesis using releases_descending [OF m t d] by (auto simp: py_dict_def)
qed

text \<open>
  Claim C6, as stated, fails when two keys parse to the same list: the releases \<open>1.0.0\<close>,
  \<open>1.0.0-asserts\<close> are in descending version order, and the re-sort, a stable ascending
  sort followed by a reversal, swaps them.
\<close>

theorem resort_ties_counterexample:
  "descending [(''1.0.0'', ''abc''), (''1.0.0-asserts'', ''xyz'')]
   \<and> resort_releases [(''1.0.0'', ''abc''), (''1.0.0-asserts'', ''xyz'')]
       = Inr [(''1.0.0-asserts'', ''xyz''), (''1.0.0'', ''abc'')]
   \<and> resort_releases [(''1.0.0'', ''abc''), (''1.0.0-asserts'', ''xyz'')]
       \<noteq> Inr [(''1.0.0'', ''abc''), (''1.0.0-asserts'', ''xyz'')]"
  by code_simp

text \<open>
  Claim C6, amended. Applied to releases that are in strictly descending version order
  (no two keys parse to the same list), the re-sort returns them in the same order.
\<close>

theorem resort_idempotent:
  assumes "strictly_descending items"
  shows "resort_releases items = Inr items"
proof -
  from assms obtain ks where ks: "release_keys items = Inr ks"
    and s: "sorted_wrt (\<lambda>a b. b < a) ks"
    by (auto simp: strictly_descending_def split: sum.splits)
  have l: "length ks = length items" using ks by (rule release_keys_length)
  have "sorted_wrt (\<lambda>a b. b < a) (map fst (zip ks items))" using s l by simp
  then have "sorted_wrt (\<lambda>a b. fst b < fst a) (zip ks items)"
    by (simp only: sorted_wrt_map)
  then have "sort_key fst (zip ks items) = rev (zip ks items)"
    by (rule sort_key_strictly_descending)
  then have "map snd (sort_key fst (zip ks items)) = rev items"
    using l by (simp add: rev_map [symmetric])
  then have "sort_releases items = Inr (rev items)"
    using ks by (simp add: sort_releases_def)
  moreover have "py_dict items"
    using ks strictly_descending_distinct [OF s] by (rule release_keys_py_dict)
  ultimately show ?thesis by (simp add: resort_releases_def ordered_dict_id)
qed

theorem resort_idempotent_witness:
  "strictly_descending [(''1.10.0'', ''xyz''), (''1.9.0'', ''abc''), (''1.9'', ''old'')]
   \<and> resort_releases [(''1.10.0'', ''xyz''), (''1.9.0'', ''abc''), (''1.9'', ''old'')]
       = Inr [(''1.10.0'', ''xyz''), (''1.9.0'', ''abc''), (''1.9'', ''old'')]"
proof -
  have s: "strictly_descending [(''1.10.0'', ''xyz''), (''1.9.0'', ''abc''), (''1.9'', ''old'')]"
    by code_simp
  show ?thesis using s resort_idempotent [OF s] by simp
qed

text \<open>
  Claim C7. The provenance identifier recorded for the new release is the first
  command-line argument when there is one, and what the tip-of-tree resolver returns
  otherwise. For a registry whose \<open>releases\<close> is a dictionary: after every successful
  promotion, the value that \<open>releases\<close> holds for the version \<open>latest\<close> now names is that
  identifier; and a promotion does succeed, with that value recorded, from a clean tree
  whose \<open>latest\<close> alias and release keys parse, whose new branch does not exist yet and
  whose external commands succeed, given an argument or, without one, an answer of the
  resolver.
\<close>

theorem provenance_recorded:
  assumes "tags_file w = Some r" and "py_dict (releases r)"
  shows "(\<forall>n w'. main args w = (Inr n, w') \<longrightarrow>
            (\<exists>r' new_version. tags_file w' = Some r'
               \<and> dict_get (aliases r') ''latest'' = Inr new_version
               \<and> dict_get (releases r') new_version
                   = (if args \<noteq> [] then Inr (hd args) else get_emscripten_releases_tot w)))
    \<and> (bytes_strip (git_status w) = []
        \<and> dict_get (aliases r) ''latest'' = Inr latest
        \<and> version_to_list latest = Inr parsed
        \<and> release_keys (releases r) = Inr keys
        \<and> branch_name (butlast parsed @ [last parsed + 1]) \<notin> set (git_branches w)
        \<and> hook_ok w \<and> commit_ok w
        \<and> (args = [] \<longrightarrow> get_emscripten_releases_tot w = Inr tip)
        \<longrightarrow> (\<exists>w' r' new_version. main args w = (Inr 0, w') \<and> tags_file w' = Some r'
               \<and> dict_get (aliases r') ''latest'' = Inr new_version
               \<and> dict_get (releases r') new_version
                   = Inr (case args of [] \<Rightarrow> tip | a # _ \<Rightarrow> a)))"
proof -
  have part1: "\<exists>r' new_version. tags_file w' = Some r'
               \<and> dict_get (aliases r') ''latest'' = Inr new_version
               \<and> dict_get (releases r') new_version
                   = (if args \<noteq> [] then Inr (hd args) else get_emscripten_releases_tot w)"
    if run: "main args w = (Inr n, w')" for n w'
  proof -
    from run obtain r0 nv h resorted r' where
      r0: "tags_file w = Some r0"
      and h: "provenance args w = Inr h"
      and res: "resort_releases (dict_set (releases r0) (version_string nv) h) = Inr resorted"
      and r': "tags_file w' = Some r'" "releases r' = resorted"
        "aliases r' = dict_set (aliases r0) ''latest'' (version_string nv)"
      by (rule main_Inr)
    from r0 assms(1) have [simp]: "r0 = r" by simp
    have d: "py_dict (dict_set (releases r) (version_string nv) h)"
      using assms(2) by (rule py_dict_dict_set)
    have "(version_string nv, h) \<in> set resorted"
      using resort_releases_descending(2) [OF res] d by (simp add: dict_set_member)
    moreover have "py_dict resorted" using resort_releases_descending(3) [OF res] d by simp
    ultimately have "dict_get (releases r') (version_string nv) = Inr h"
      using r'(2) by (simp add: dict_get_iff)
    moreover have "dict_get (aliases r') ''latest'' = Inr (version_string nv)"
      using r'(3) by (simp add: dict_get_dict_set)
    moreover have "Inr h = (if args \<noteq> [] then Inr (hd args) else get_emscripten_releases_tot w)"
      using h by (cases args) (auto simp: provenance_def)
    ultimately show ?thesis using r'(1) by auto
  qed
  have part2: "\<exists>w' r' new_version. main args w = (Inr 0, w') \<and> tags_file w' = Some r'
               \<and> dict_get (aliases r') ''latest'' = Inr new_version
               \<and> dict_get (releases r') new_version
                   = Inr (case args of [] \<Rightarrow> tip | a # _ \<Rightarrow> a)"
    if pre: "bytes_strip (git_status w) = []" "dict_get (aliases r) ''latest'' = Inr latest"
      "version_to_list latest = Inr parsed" "release_keys (releases r) = Inr keys"
      "branch_name (butlast parsed @ [last parsed + 1]) \<notin> set (git_branches w)"
      "hook_ok w" "commit_ok w" "args = [] \<longrightarrow> get_emscripten_releases_tot w = Inr tip"
  proof -
    have p: "provenance args w = Inr (case args of [] \<Rightarrow> tip | a # _ \<Rightarrow> a)"
      using pre(8) by (cases args) (simp_all add: provenance_def)
    have "fst (main args w) = Inr 0"
      using pre(1) assms(1) pre(2,3,4,5) p pre(6,7) by (rule main_success)
    then have run: "main args w = (Inr 0, snd (main args w))" by (rule main_run)
    from part1 [OF run] obtain r' new_version where
      "tags_file (snd (main args w)) = Some r'" "dict_get (aliases r') ''latest'' = Inr new_version"
      "dict_get (releases r') new_version
         = (if args \<noteq> [] then Inr (hd args) else get_emscripten_releases_tot w)"
      by blast
    moreover have "(if args \<noteq> [] then Inr (hd args) else get_emscripten_releases_tot w)
        = Inr (case args of [] \<Rightarrow> tip | a # _ \<Rightarrow> a)"
      using pre(8) by (cases args) simp_all
    ultimately show ?thesis using run by metis
  qed
  from part1 part2 show ?thesis by blast
qed

theorem provenance_recorded_witness:
  "(\<exists>w' r' new_version.
       main [] (example_world [(''3.1.0'', ''aaa'')] ''3.1.0'') = (Inr 0, w')
       \<and> tags_file w' = Some r'
       \<and> dict_get (aliases r') ''latest'' = Inr new_version
       \<and> dict_get (releases r') new_version = Inr ''0a1b2c'')
   \<and> (\<exists>w' r' new_version.
       main [''bbb'', ''ignored''] (example_world [(''3.1.0'', ''aaa'')] ''3.1.0'') = (Inr 0, w')
       \<and> tags_file w' = Some r'
       \<and> dict_get (aliases r') ''latest'' = Inr new_version
       \<and> dict_get (releases r') new_version = Inr ''bbb'')"
proof -
  let ?r = "\<lparr>releases = [(''3.1.0'', ''aaa'')], aliases = [(''latest'', ''3.1.0'')]\<rparr>"
  let ?w = "example_world [(''3.1.0'', ''aaa'')] ''3.1.0''"
  have t: "tags_file ?w = Some ?r" by (simp add: example_world_def)
  have d: "py_dict (releases ?r)" by (simp add: py_dict_def)
  have c: "bytes_strip (git_status ?w) = []"
    by (simp add: example_world_def bytes_strip_def strip_with_def)
  have l: "dict_get (aliases ?r) ''latest'' = Inr ''3.1.0''" by simp
  have v: "version_to_list ''3.1.0'' = Inr [3, 1, 0]" by code_simp
  have k: "release_keys (releases ?r) = Inr [[3, 1, 0]]" by (simp add: release_keys_def v)
  have b: "branch_name (butlast [3, 1, 0] @ [last [3, 1, 0] + 1]) \<notin> set (git_branches ?w)"
    by code_simp
  have h: "hook_ok ?w" "commit_ok ?w" by (simp_all add: example_world_def)
  have g: "get_emscripten_releases_tot ?w = Inr ''0a1b2c''"
    by (simp add: get_emscripten_releases_tot_def example_world_def)
  show ?thesis
    using provenance_recorded [OF t d, where args = "[]" and latest = "''3.1.0''"
        and parsed = "[3, 1, 0]" and keys = "[[3, 1, 0]]" and tip = "''0a1b2c''"]
      provenance_recorded [OF t d, where args = "[''bbb'', ''ignored'']" and latest = "''3.1.0''"
        and parsed = "[3, 1, 0]" and keys = "[[3, 1, 0]]" and tip = "''unused''"]
      c l v k b h g
    by simp
qed

text \<open>
  Claim C9. A successful promotion preserves the registry invariant: when every alias of
  the registry read names a key of its \<open>releases\<close>, so does every alias of the registry
  written.
\<close>

theorem alias_invariant_preserved:
  assumes "main args w = (Inr n, w')" and "tags_file w = Some r" and "alias_invariant r"
  shows "\<exists>r'. tags_file w' = Some r' \<and> alias_invariant r'"
proof -
  from assms(1) obtain r0 nv h resorted r' where
    r0: "tags_file w = Some r0"
    and res: "resort_releases (dict_set (releases r0) (version_string nv) h) = Inr resorted"
    and r': "tags_file w' = Some r'" "releases r' = resorted"
      "aliases r' = dict_set (aliases r0) ''latest'' (version_string nv)"
    by (rule main_Inr)
  from r0 assms(2) have [simp]: "r0 = r" by simp
  have keys: "fst ` set (releases r') = insert (version_string nv) (fst ` set (releases r))"
    using resort_releases_keys [OF res] r'(2) by (simp add: dict_set_keys)
  have "version \<in> fst ` set (releases r')" if "(name, version) \<in> set (aliases r')" for name version
  proof -
    from that r'(3) have "(name, version) \<in> insert (''latest'', version_string nv) (set (aliases r))"
      using dict_set_subset [of "aliases r" "''latest''" "version_string nv"] by auto
    then show ?thesis
    proof
      assume "(name, version) = (''latest'', version_string nv)"
      then show ?thesis using keys by simp
    next
      assume "(name, version) \<in> set (aliases r)"
      with assms(3) have "version \<in> fst ` set (releases r)"
        by (auto simp: alias_invariant_def list_all_iff)
      then show ?thesis using keys by simp
    qed
  qed
  then have "alias_invariant r'" by (auto simp: alias_invariant_def list_all_iff)
  with r'(1) show ?thesis by blast
qed

theorem alias_invariant_preserved_witness:
  "alias_invariant \<lparr>releases = [(''2.0.9'', ''f00''), (''2.0.8'', ''e11'')],
                    aliases = [(''latest'', ''2.0.9''), (''previous'', ''2.0.8'')]\<rparr>
   \<and> (\<exists>r'. tags_file (snd (main []
          ((example_world [] [])\<lparr>tags_file := Some
             \<lparr>releases = [(''2.0.9'', ''f00''), (''2.0.8'', ''e11'')],
              aliases = [(''latest'', ''2.0.9''), (''previous'', ''2.0.8'')]\<rparr>\<rparr>))) = Some r'
         \<and> alias_invariant r')"
proof -
  let ?r = "\<lparr>releases = [(''2.0.9'', ''f00''), (''2.0.8'', ''e11'')],
            aliases = [(''latest'', ''2.0.9''), (''previous'', ''2.0.8'')]\<rparr>"
  let ?w = "(example_world [] [])\<lparr>tags_file := Some ?r\<rparr>"
  have "fst (main [] ?w) = Inr 0" by code_simp
  then have m: "main [] ?w = (Inr 0, snd (main [] ?w))" by (rule main_run)
  have t: "tags_file ?w = Some ?r" by simp
  have a: "alias_invariant ?r" by code_simp
  show ?thesis using a alias_invariant_preserved [OF m t a] by simp
qed

end
